theory Spec2Isabelle
  imports Main "HOL-Library.Product_Lexorder" "HOL-Library.AList"
begin

section \<open>PortfolioBook1.jsx: the page image cache and its preload scheduler\<close>

text \<open>
  The component keeps its data in React state (\<open>pageCount\<close>, \<open>pages\<close>, \<open>loadingPages\<close>,
  \<open>loading\<close>, \<open>error\<close>, \<open>currentPage\<close>) and in refs (\<open>pdfRef\<close>, \<open>loadingQueue\<close>).
  A callback created by \<open>useCallback\<close> reads React state through the closure of the render
  that created it, and reads refs and applies state updaters on the live values. The model
  keeps the two apart: a \<open>closure\<close> is what a render saw, a \<open>scheduler\<close> is the live state.

  Page indices and page numbers are JavaScript numbers holding whole values; they are
  modelled as \<open>int\<close>. An image payload is the string the renderer returns (a data URL or a
  \<open>blob:\<close> URL). \<open>pages\<close> is a JavaScript \<open>Map\<close>: an association list in insertion order, on
  which \<open>Map.set\<close> is \<open>AList.update\<close> (an existing key keeps its place, a new key goes last).
  A value that is \<open>null\<close> or a string is an \<open>option\<close>, and it is truthy when it is a string
  that is not empty.
\<close>

type_synonym image = string

text \<open>
  What the environment answers: to opening the document, and to rendering one page. A page
  yields its image, or \<open>getPage\<close> or the rendering fails, or the page renders and the promise
  of \<open>canvas.convertToBlob()\<close> rejects.
\<close>

datatype render_outcome = Rendered image | RenderError string | BlobRejected string

datatype open_outcome = Opened int | LoadError string

text \<open>The three \<open>console.error\<close> calls of the file.\<close>

datatype log_entry =
    FailedToLoadPage int string
  | ErrorLoadingPage int string
  | PdfLoadingError string

record closure =
  cPageCount :: int
  cPages :: "(int \<times> image) list"
  cLoadingPages :: "int set"
  cLoading :: bool
  cError :: "string option"

text \<open>
  The suspended computations. \<open>init\<close> waits in one of four places. A timer holds the
  callback given to \<open>setTimeout\<close>, with the closure of the render that created it. A
  foreground pass is either suspended at \<open>await loadPage()\<close> for one index, with the rest of
  its slice still to visit, or its awaited promise has settled and its loop is ready to go
  on.
\<close>

datatype init_phase = Opening | GettingDims | FirstPage | SecondPage | InitReturned

datatype timer = InitTimer closure | NavTimer int closure

datatype fgpass = Awaiting int "int list" | Ready "int list"

datatype "view" = LoadingView | ErrorView string | BookView

record scheduler =
  pageCount :: int
  pages :: "(int \<times> image) list"
  loadingPages :: "int set"
  loading :: bool
  error :: "string option"
  currentPage :: int
  pdfRef :: bool
  loadingQueue :: "int set"
  rendered :: closure
  pagesChanged :: bool
  mounted :: bool
  initPhase :: init_phase
  timeouts :: "timer list"
  idleCallbacks :: "int list"
  rendering :: "int list"
  foreground :: "fgpass list"
  renderCalls :: "int list"
  console :: "log_entry list"
  revoked :: "image list"

text \<open>
  \<open>pdfRef\<close> says whether \<open>pdfRef.current\<close> holds a document. \<open>rendered\<close> is the closure of the
  latest render and \<open>pagesChanged\<close> whether \<open>setPages\<close> ran since. \<open>mounted\<close> is the negation of
  \<open>cancelled\<close>. \<open>idleCallbacks\<close> are the \<open>loadPage\<close> callbacks handed to \<open>requestIdleCallback\<close>
  (or \<open>setTimeout\<close>) that have not started, \<open>rendering\<close> those suspended at
  \<open>await loadPageImage\<close>. \<open>renderCalls\<close> lists the PDF page numbers passed to \<open>pdf.getPage\<close> by
  \<open>loadPageImage\<close>, \<open>console\<close> what was logged, \<open>revoked\<close> the arguments of
  \<open>URL.revokeObjectURL\<close>.
\<close>

definition PRELOAD_RANGE :: int where
  "PRELOAD_RANGE = 2"

text \<open>\<open>Map.prototype.has\<close>.\<close>

definition has :: "(int \<times> image) list \<Rightarrow> int \<Rightarrow> bool" where
  "has m idx = (map_of m idx \<noteq> None)"

subsection \<open>Selection (\<open>preloadPagesAround\<close>, lines 67 to 89)\<close>

text \<open>The array \<open>pagesToLoad\<close> as the two branches fill it, before it is sorted.\<close>

definition candidates :: "closure \<Rightarrow> int \<Rightarrow> bool \<Rightarrow> int list" where
  "candidates c currentIndex priority =
     (if priority then
        [currentIndex] @ (if currentIndex + 1 < cPageCount c then [currentIndex + 1] else [])
      else
        filter (\<lambda>idx. idx \<ge> 0 \<and> idx < cPageCount c \<and> \<not> has (cPages c) idx
                       \<and> idx \<notin> cLoadingPages c)
          (map (\<lambda>i. currentIndex + i) [- PRELOAD_RANGE .. PRELOAD_RANGE + 1]))"

text \<open>
  \<open>Array.prototype.sort\<close> is stable, and the comparator is the difference of the two
  distances: \<open>sort_key\<close> on the distance, an insertion sort that keeps equal keys in their
  order. Then \<open>slice(0, priority ? 2 : 4)\<close>.
\<close>

definition pagesToLoad :: "closure \<Rightarrow> int \<Rightarrow> bool \<Rightarrow> int list" where
  "pagesToLoad c currentIndex priority =
     take (if priority then 2 else 4)
       (sort_key (\<lambda>a. \<bar>a - currentIndex\<bar>) (candidates c currentIndex priority))"


definition foreground_spec :: "int \<Rightarrow> int \<Rightarrow> int list" where
  "foreground_spec count currentIndex =
     take 2 (filter (\<lambda>i. 0 \<le> i \<and> i < count) [currentIndex, currentIndex + 1])"

subsection \<open>Rendering one page (\<open>loadPageImage\<close>, lines 31 to 60)\<close>

text \<open>
  The function returns \<open>null\<close> without a document; otherwise everything it awaits sits in a
  \<open>try\<close> whose \<open>catch\<close> logs and returns \<open>null\<close>. The promise of \<open>convertToBlob\<close> is
  returned, not awaited, so its rejection passes the \<open>catch\<close> by and rejects the call. The
  result is a sum: \<open>Inl\<close> is the rejection, \<open>Inr\<close> a normal return of what was logged and the
  image or \<open>null\<close>.
\<close>

definition loadPageImage ::
  "bool \<Rightarrow> int \<Rightarrow> render_outcome \<Rightarrow> string + (log_entry list \<times> image option)" where
  "loadPageImage pdf pdfPageNum out =
     (if \<not> pdf then Inr ([], None)
      else case out of
        Rendered url \<Rightarrow> Inr ([], Some url)
      | RenderError err \<Rightarrow> Inr ([FailedToLoadPage pdfPageNum err], None)
      | BlobRejected err \<Rightarrow> Inl err)"

definition callRender :: "bool \<Rightarrow> int \<Rightarrow> scheduler \<Rightarrow> scheduler" where
  "callRender pdf pdfPageNum s =
     (if pdf then s\<lparr>renderCalls := renderCalls s @ [pdfPageNum]\<rparr> else s)"

definition setPages :: "int \<Rightarrow> image \<Rightarrow> scheduler \<Rightarrow> scheduler" where
  "setPages idx imageData s =
     s\<lparr>pages := AList.update idx imageData (pages s), pagesChanged := True\<rparr>"

subsection \<open>The dispatch loop (lines 89 to 127)\<close>

text \<open>Lines 92 and 93: the index enters the ref and the state set.\<close>

definition mark :: "int \<Rightarrow> scheduler \<Rightarrow> scheduler" where
  "mark idx s =
     s\<lparr>loadingQueue := insert idx (loadingQueue s), loadingPages := insert idx (loadingPages s)\<rparr>"

text \<open>
  \<open>loadPage\<close> from the point where \<open>loadPageImage\<close> has settled: the \<open>try\<close> stores a truthy
  image, the \<open>catch\<close> logs, the \<open>finally\<close> takes the index out of both sets. The document
  passed to \<open>loadPageImage\<close> is read from the ref here; the ref is only ever set, and a pass
  gets to \<open>loadPage\<close> only once it is.
\<close>

definition loadPage_settle :: "int \<Rightarrow> render_outcome \<Rightarrow> scheduler \<Rightarrow> scheduler" where
  "loadPage_settle idx out s =
     (let s2 =
        (case loadPageImage (pdfRef s) (idx + 1) out of
           Inr (logs, imageData) \<Rightarrow>
             (let s1 = s\<lparr>console := console s @ logs\<rparr>
              in case imageData of
                   None \<Rightarrow> s1
                 | Some url \<Rightarrow> if url \<noteq> [] then setPages idx url s1 else s1)
         | Inl err \<Rightarrow> s\<lparr>console := console s @ [ErrorLoadingPage idx err]\<rparr>)
      in s2\<lparr>loadingPages := loadingPages s2 - {idx}, loadingQueue := loadingQueue s2 - {idx}\<rparr>)"

text \<open>
  The loop with \<open>priority\<close> set runs until it suspends at \<open>await loadPage()\<close>, which is after
  \<open>loadPage\<close> has called \<open>loadPageImage\<close> and that has called \<open>pdf.getPage\<close>; or until the slice
  is used up.
\<close>

fun fg_loop :: "int list \<Rightarrow> scheduler \<Rightarrow> scheduler" where
  "fg_loop [] s = s"
| "fg_loop (idx # rest) s =
     (if idx \<in> loadingQueue s then fg_loop rest s
      else (callRender (pdfRef s) (idx + 1) (mark idx s))
             \<lparr>foreground := foreground s @ [Awaiting idx rest]\<rparr>)"

text \<open>Without \<open>priority\<close> the loop never suspends: it hands every \<open>loadPage\<close> to the idle queue.\<close>

fun bg_loop :: "int list \<Rightarrow> scheduler \<Rightarrow> scheduler" where
  "bg_loop [] s = s"
| "bg_loop (idx # rest) s =
     (if idx \<in> loadingQueue s then bg_loop rest s
      else bg_loop rest ((mark idx s)\<lparr>idleCallbacks := idleCallbacks s @ [idx]\<rparr>))"

definition preloadPagesAround :: "closure \<Rightarrow> int \<Rightarrow> bool \<Rightarrow> scheduler \<Rightarrow> scheduler" where
  "preloadPagesAround c currentIndex priority s =
     (if \<not> pdfRef s then s
      else if cPageCount c = 0 then s
      else if priority then fg_loop (pagesToLoad c currentIndex True) s
      else bg_loop (pagesToLoad c currentIndex False) s)"

subsection \<open>Navigation (\<open>handlePageChange\<close>, lines 242 to 247)\<close>

definition handlePageChange :: "closure \<Rightarrow> int \<Rightarrow> scheduler \<Rightarrow> scheduler" where
  "handlePageChange c newPage s =
     (let s1 = s\<lparr>currentPage := newPage\<rparr>;
          s2 = preloadPagesAround c newPage True s1
      in s2\<lparr>timeouts := timeouts s2 @ [NavTimer newPage c]\<rparr>)"

subsection \<open>The cleanup effect (lines 250 to 259)\<close>

definition cleanup :: "(int \<times> image) list \<Rightarrow> scheduler \<Rightarrow> scheduler" where
  "cleanup pgs s =
     s\<lparr>revoked := revoked s @ filter (\<lambda>imageData. take 5 imageData = ''blob:'') (map snd pgs)\<rparr>"

subsection \<open>Opening the document (\<open>init\<close>, lines 136 to 187)\<close>

text \<open>
  The base dimensions that \<open>init\<close> also computes are sizes for the layout and are left out.
  \<open>init\<close> belongs to the effect of the first render, so the \<open>preloadPagesAround\<close> its timer
  calls is the one of the first render.
\<close>

definition first_render :: closure where
  "first_render =
     \<lparr>cPageCount = 0, cPages = [], cLoadingPages = {}, cLoading = True, cError = None\<rparr>"

definition initial :: scheduler where
  "initial =
     \<lparr>pageCount = 0, pages = [], loadingPages = {}, loading = True, error = None,
      currentPage = 0, pdfRef = False, loadingQueue = {}, rendered = first_render,
      pagesChanged = False, mounted = True, initPhase = Opening, timeouts = [],
      idleCallbacks = [], rendering = [], foreground = [], renderCalls = [], console = [],
      revoked = []\<rparr>"

text \<open>The \<open>catch\<close> of \<open>init\<close>; \<open>err.message || "Failed to load PDF"\<close>.\<close>

definition init_catch :: "string \<Rightarrow> scheduler \<Rightarrow> scheduler" where
  "init_catch msg s =
     (if mounted s then
        s\<lparr>console := console s @ [PdfLoadingError msg],
          error := Some (if msg \<noteq> [] then msg else ''Failed to load PDF''),
          loading := False\<rparr>
      else s)"

definition init_opened :: "open_outcome \<Rightarrow> scheduler \<Rightarrow> scheduler" where
  "init_opened out s =
     (case out of
        LoadError msg \<Rightarrow> init_catch msg (s\<lparr>initPhase := InitReturned\<rparr>)
      | Opened n \<Rightarrow>
          if \<not> mounted s then s\<lparr>initPhase := InitReturned\<rparr>
          else s\<lparr>pdfRef := True, pageCount := n, initPhase := GettingDims\<rparr>)"

definition init_dims :: "string option \<Rightarrow> scheduler \<Rightarrow> scheduler" where
  "init_dims res s =
     (case res of
        Some msg \<Rightarrow> init_catch msg (s\<lparr>initPhase := InitReturned\<rparr>)
      | None \<Rightarrow> (callRender True 1 s)\<lparr>initPhase := FirstPage\<rparr>)"

definition init_first :: "render_outcome \<Rightarrow> scheduler \<Rightarrow> scheduler" where
  "init_first out s =
     (case loadPageImage True 1 out of
        Inl msg \<Rightarrow> init_catch msg (s\<lparr>initPhase := InitReturned\<rparr>)
      | Inr (logs, firstPageImage) \<Rightarrow>
          (let s1 = s\<lparr>console := console s @ logs\<rparr>;
               s2 = (case firstPageImage of
                       None \<Rightarrow> s1
                     | Some url \<Rightarrow> if mounted s1 \<and> url \<noteq> [] then setPages 0 url s1 else s1)
           in (callRender True 2 s2)\<lparr>initPhase := SecondPage\<rparr>))"

definition init_second :: "render_outcome \<Rightarrow> scheduler \<Rightarrow> scheduler" where
  "init_second out s =
     (case loadPageImage True 2 out of
        Inl msg \<Rightarrow> init_catch msg (s\<lparr>initPhase := InitReturned\<rparr>)
      | Inr (logs, secondPageImage) \<Rightarrow>
          (let s1 = s\<lparr>console := console s @ logs\<rparr>;
               s2 = (case secondPageImage of
                       None \<Rightarrow> s1
                     | Some url \<Rightarrow> if mounted s1 \<and> url \<noteq> [] then setPages 1 url s1 else s1)
           in s2\<lparr>loading := False, timeouts := timeouts s2 @ [InitTimer first_render],
                 initPhase := InitReturned\<rparr>))"

subsection \<open>What a render shows (lines 261 to 287)\<close>

definition render_view :: "closure \<Rightarrow> view" where
  "render_view c =
     (if cLoading c then LoadingView
      else case cError c of
             None \<Rightarrow> BookView
           | Some msg \<Rightarrow> if msg \<noteq> [] then ErrorView msg else BookView)"

definition snapshot :: "scheduler \<Rightarrow> closure" where
  "snapshot s =
     \<lparr>cPageCount = pageCount s, cPages = pages s, cLoadingPages = loadingPages s,
      cLoading = loading s, cError = error s\<rparr>"

subsection \<open>The event loop\<close>

text \<open>
  Everything runs on one thread, and a computation gives way only at an \<open>await\<close> or by
  returning. One event is one uninterrupted run: a promise of the PDF library settling and
  the code awaiting it going on to its next suspension, a timer or idle callback firing, React
  rendering, the flip widget reporting a page, the component unmounting. An event that
  nothing is waiting for leaves the state as it is. The widget exists, and so reports pages,
  only while the latest render shows the book, and it calls the \<open>handlePageChange\<close> of that
  render. Timers fire in the order they were set: the timer of \<open>init\<close> is set before the book
  is shown, and the timers of navigations all wait equally long.
\<close>

datatype event =
    OpenSettles open_outcome
  | DimsSettle "string option"
  | InitRenderSettles render_outcome
  | Rerender
  | Navigate int
  | TimeoutFires
  | IdleRuns int
  | RenderSettles int render_outcome
  | FgContinues nat
  | Unmount

fun settle_fg :: "int \<Rightarrow> fgpass list \<Rightarrow> fgpass list" where
  "settle_fg idx [] = []"
| "settle_fg idx (Awaiting i rest # ps) =
     (if i = idx then Ready rest # ps else Awaiting i rest # settle_fg idx ps)"
| "settle_fg idx (Ready rest # ps) = Ready rest # settle_fg idx ps"

fun awaited :: "fgpass list \<Rightarrow> int list" where
  "awaited [] = []"
| "awaited (Awaiting i rest # ps) = i # awaited ps"
| "awaited (Ready rest # ps) = awaited ps"

fun step :: "event \<Rightarrow> scheduler \<Rightarrow> scheduler" where
  "step (OpenSettles out) s = (if initPhase s = Opening then init_opened out s else s)"
| "step (DimsSettle res) s = (if initPhase s = GettingDims then init_dims res s else s)"
| "step (InitRenderSettles out) s =
     (if initPhase s = FirstPage then init_first out s
      else if initPhase s = SecondPage then init_second out s
      else s)"
| "step Rerender s =
     (if mounted s then
        (if pagesChanged s then cleanup (cPages (rendered s)) s else s)
          \<lparr>rendered := snapshot s, pagesChanged := False\<rparr>
      else s)"
| "step (Navigate newPage) s =
     (if mounted s \<and> render_view (rendered s) = BookView
      then handlePageChange (rendered s) newPage s else s)"
| "step TimeoutFires s =
     (case timeouts s of
        [] \<Rightarrow> s
      | InitTimer c # ts \<Rightarrow>
          if mounted s then preloadPagesAround c 0 False (s\<lparr>timeouts := ts\<rparr>)
          else s\<lparr>timeouts := ts\<rparr>
      | NavTimer newPage c # ts \<Rightarrow> preloadPagesAround c newPage False (s\<lparr>timeouts := ts\<rparr>))"
| "step (IdleRuns idx) s =
     (if idx \<in> set (idleCallbacks s) then
        (callRender (pdfRef s) (idx + 1) s)
          \<lparr>idleCallbacks := remove1 idx (idleCallbacks s), rendering := rendering s @ [idx]\<rparr>
      else s)"
| "step (RenderSettles idx out) s =
     (if idx \<in> set (rendering s) then
        loadPage_settle idx out (s\<lparr>rendering := remove1 idx (rendering s)\<rparr>)
      else if idx \<in> set (awaited (foreground s)) then
        loadPage_settle idx out (s\<lparr>foreground := settle_fg idx (foreground s)\<rparr>)
      else s)"
| "step (FgContinues k) s =
     (if k < length (foreground s) then
        (case foreground s ! k of
           Ready rest \<Rightarrow>
             fg_loop rest (s\<lparr>foreground := take k (foreground s) @ drop (Suc k) (foreground s)\<rparr>)
         | Awaiting idx rest \<Rightarrow> s)
      else s)"
| "step Unmount s =
     (if mounted s then (cleanup (cPages (rendered s)) s)\<lparr>mounted := False\<rparr> else s)"

definition run :: "event list \<Rightarrow> scheduler \<Rightarrow> scheduler" where
  "run es s = fold step es s"

text \<open>The indices with a \<open>loadPage\<close> scheduled or running, and those with a render call out.\<close>

definition inflight :: "scheduler \<Rightarrow> int list" where
  "inflight s = idleCallbacks s @ rendering s @ awaited (foreground s)"

definition outstanding :: "scheduler \<Rightarrow> int list" where
  "outstanding s = rendering s @ awaited (foreground s)"

text \<open>
  Event sequences used as examples: a ten-page document opens and \<open>init\<close> caches its first
  two pages, or fails to render both; then React renders.
\<close>

definition loaded10 :: "event list" where
  "loaded10 =
     [OpenSettles (Opened 10), DimsSettle None, InitRenderSettles (Rendered ''blob:a0''),
      InitRenderSettles (Rendered ''blob:a1''), Rerender]"

definition empty10 :: "event list" where
  "empty10 =
     [OpenSettles (Opened 10), DimsSettle None, InitRenderSettles (RenderError ''e1''),
      InitRenderSettles (RenderError ''e2''), Rerender]"


definition closure10 :: closure where
  "closure10 =
     \<lparr>cPageCount = 10, cPages = [], cLoadingPages = {}, cLoading = False, cError = None\<rparr>"

subsection \<open>Invariants\<close>

text \<open>
  What holds of every state the event loop reaches: no index is in flight twice, the
  indices in flight are those of \<open>loadingQueue\<close>, the two sets agree, no key occurs twice in
  \<open>pages\<close>, and nothing is in flight or suspended before the document is there.
\<close>

definition scheduler_inv :: "scheduler \<Rightarrow> bool" where
  "scheduler_inv s =
     (distinct (inflight s) \<and> set (inflight s) = loadingQueue s \<and>
      loadingPages s = loadingQueue s \<and> distinct (map fst (pages s)) \<and>
      (pdfRef s \<or> (inflight s = [] \<and> foreground s = [])))"

text \<open>The events that leave \<open>init\<close> waiting for the document and the component mounted.\<close>

fun before_open :: "event \<Rightarrow> bool" where
  "before_open (OpenSettles out) = False"
| "before_open Unmount = False"
| "before_open e = True"

text \<open>The state once opening has failed with \<open>msg\<close> and \<open>m\<close> is the message shown.\<close>

definition load_failed :: "string \<Rightarrow> string \<Rightarrow> scheduler \<Rightarrow> bool" where
  "load_failed msg m s =
     (error s = Some m \<and> \<not> loading s \<and> \<not> pdfRef s \<and> pageCount s = 0 \<and> pages s = [] \<and>
      renderCalls s = [] \<and> loadingQueue s = {} \<and> loadingPages s = {} \<and>
      idleCallbacks s = [] \<and> rendering s = [] \<and> foreground s = [] \<and> timeouts s = [] \<and>
      initPhase s = InitReturned \<and> render_view (rendered s) \<noteq> BookView \<and>
      console s = [PdfLoadingError msg])"









section \<open>PortfolioBook.jsx: the page-splitting variant\<close>

text \<open>
  A canvas is its rows of pixels. A data URL is taken to be the canvas it encodes, so it is
  never falsy. The document answers a page number with the canvas \<open>page.render\<close> draws, or
  with nothing when \<open>getPage\<close> or the rendering rejects; \<open>loadPageImage\<close> has no \<open>try\<close> here.
\<close>

type_synonym canvas = "nat list list"

record pdf_document =
  numPages :: int
  renderPage :: "int \<Rightarrow> canvas option"

definition SPLIT_PAGES :: bool where
  "SPLIT_PAGES = True"

definition canvas_width :: "canvas \<Rightarrow> nat" where
  "canvas_width cv = (case cv of [] \<Rightarrow> 0 | row # _ \<Rightarrow> length row)"

definition canvas_height :: "canvas \<Rightarrow> nat" where
  "canvas_height cv = length cv"

text \<open>
  \<open>drawImage(src, sx, sy, sw, sh, 0, 0, sw, sh)\<close> onto a fresh canvas of \<open>sw\<close> by \<open>sh\<close>.
\<close>

definition drawImage :: "canvas \<Rightarrow> nat \<Rightarrow> nat \<Rightarrow> nat \<Rightarrow> nat \<Rightarrow> canvas" where
  "drawImage src sx sy sw sh = map (\<lambda>row. take sw (drop sx row)) (take sh (drop sy src))"

definition loadPageImage_split :: "pdf_document \<Rightarrow> int \<Rightarrow> canvas list option" where
  "loadPageImage_split pdf pdfPageNum =
     (case renderPage pdf pdfPageNum of
        None \<Rightarrow> None
      | Some cv \<Rightarrow>
          if SPLIT_PAGES then
            (let halfW = canvas_width cv div 2;
                 left = drawImage cv 0 0 halfW (canvas_height cv);
                 rightW = canvas_width cv - halfW;
                 right = drawImage cv halfW 0 rightW (canvas_height cv)
             in Some [left, right])
          else Some [cv])"

text \<open>
  The loop of \<open>preloadPagesAround\<close> (lines 55 to 64). \<open>cPageCount\<close> and \<open>cPages\<close> are the
  closure's, the last argument is the live \<open>pages\<close>. The result says whether the loop was left
  by a rejection. \<open>idx % 2\<close> is only reached with \<open>idx\<close> not negative.
\<close>

fun preload_loop_split ::
  "pdf_document \<Rightarrow> int \<Rightarrow> (int \<rightharpoonup> canvas) \<Rightarrow> int list \<Rightarrow> (int \<rightharpoonup> canvas)
     \<Rightarrow> (int \<rightharpoonup> canvas) \<times> bool" where
  "preload_loop_split pdf cnt cpages [] st = (st, False)"
| "preload_loop_split pdf cnt cpages (idx # rest) st =
     (if idx < 0 \<or> idx \<ge> cnt then preload_loop_split pdf cnt cpages rest st
      else if cpages idx = None then
        (let pdfPageNum = (if SPLIT_PAGES then idx div 2 + 1 else idx + 1)
         in case loadPageImage_split pdf pdfPageNum of
              None \<Rightarrow> (st, True)
            | Some arr \<Rightarrow>
                (let img = (if SPLIT_PAGES then arr ! nat (idx mod 2) else arr ! 0)
                 in preload_loop_split pdf cnt cpages rest (st(idx \<mapsto> img))))
      else preload_loop_split pdf cnt cpages rest st)"

definition preloadPagesAround_split ::
  "pdf_document option \<Rightarrow> int \<Rightarrow> (int \<rightharpoonup> canvas) \<Rightarrow> int \<Rightarrow> (int \<rightharpoonup> canvas)
     \<Rightarrow> (int \<rightharpoonup> canvas) \<times> bool" where
  "preloadPagesAround_split pdfRef_split cnt cpages currentIndex st =
     (case pdfRef_split of
        None \<Rightarrow> (st, False)
      | Some pdf \<Rightarrow>
          preload_loop_split pdf cnt cpages
            [currentIndex, currentIndex + 1, currentIndex + 2] st)"

text \<open>The page count \<open>init\<close> stores (lines 75 and 76).\<close>

definition init_count_split :: "pdf_document \<Rightarrow> int" where
  "init_count_split pdf = (if SPLIT_PAGES then numPages pdf * 2 else numPages pdf)"

text \<open>
  The halves as the claim words them: the columns left of the middle, and the middle and
  those right of it; and the half that belongs at a displayed index.
\<close>

definition rectangular :: "canvas \<Rightarrow> bool" where
  "rectangular cv = list_all (\<lambda>row. length row = canvas_width cv) cv"

definition left_half :: "canvas \<Rightarrow> canvas" where
  "left_half cv = map (take (canvas_width cv div 2)) cv"

definition right_half :: "canvas \<Rightarrow> canvas" where
  "right_half cv = map (drop (canvas_width cv div 2)) cv"

definition split_spec :: "pdf_document \<Rightarrow> int \<Rightarrow> canvas option" where
  "split_spec pdf idx =
     map_option (\<lambda>cv. if even idx then left_half cv else right_half cv)
       (renderPage pdf (idx div 2 + 1))"

text \<open>
  \<open>goToPage\<close> (lines 106 to 110): nothing without the book; otherwise the index handed to
  \<open>flip\<close>. The page number is a whole number.
\<close>

definition goToPage :: "bool \<Rightarrow> int \<Rightarrow> int \<Rightarrow> int option" where
  "goToPage bookRef cnt pageNumber =
     (if \<not> bookRef then None
      else Some (max 0 (min (cnt - 1) (pageNumber - 1))))"

definition example_pdf :: pdf_document where
  "example_pdf =
     \<lparr>numPages = 2,
      renderPage = (\<lambda>n. if n = 1 then Some [[1, 2, 3], [4, 5, 6]]
                        else if n = 2 then Some [[7, 8, 9, 10]] else None)\<rparr>"

section \<open>Selection\<close>







text \<open>
  Claim C3 fails as stated: the priority branch pushes \<open>currentIndex\<close> without looking at
  it. With ten pages and \<open>currentIndex = 10\<close> the selection is \<open>[10]\<close>, where the pair cut
  down to the valid indices is empty; with \<open>currentIndex = - 1\<close> it is \<open>[- 1, 0]\<close>, not \<open>[0]\<close>.
\<close>

theorem foreground_selection_counterexample:
  "pagesToLoad closure10 10 True = [10] \<and> foreground_spec (cPageCount closure10) 10 = [] \<and>
   pagesToLoad closure10 (- 1) True = [- 1, 0] \<and> foreground_spec (cPageCount closure10) (- 1) = [0]"
  by (simp add: pagesToLoad_def candidates_def foreground_spec_def closure10_def)

lemma foreground_pages:
  "pagesToLoad c currentIndex True =
     currentIndex # (if currentIndex + 1 < cPageCount c then [currentIndex + 1] else [])"
  by (simp add: pagesToLoad_def candidates_def)

text \<open>
  Claim C3, amended. With \<open>priority\<close> set, the selection is always \<open>currentIndex\<close>, followed
  by \<open>currentIndex + 1\<close> when that is below the page count. For a \<open>currentIndex\<close> that is a
  valid index, this is the pair \<open>currentIndex\<close>, \<open>currentIndex + 1\<close> cut down to the valid
  indices, in that order, of at most two entries, each a valid index.
\<close>

theorem foreground_selection:
  "pagesToLoad c currentIndex True =
     currentIndex # (if currentIndex + 1 < cPageCount c then [currentIndex + 1] else []) \<and>
   (0 \<le> currentIndex \<and> currentIndex < cPageCount c \<longrightarrow>
      pagesToLoad c currentIndex True = foreground_spec (cPageCount c) currentIndex \<and>
      length (pagesToLoad c currentIndex True) \<le> 2 \<and>
      (\<forall>i \<in> set (pagesToLoad c currentIndex True). 0 \<le> i \<and> i < cPageCount c))"
  by (simp add: foreground_pages foreground_spec_def)

theorem foreground_selection_witness:
  "(0::int) \<le> 9 \<and> 9 < cPageCount closure10 \<and> pagesToLoad closure10 9 True = [9] \<and>
   foreground_spec (cPageCount closure10) 9 = [9] \<and>
   pagesToLoad closure10 4 True = [4, 5] \<and> foreground_spec (cPageCount closure10) 4 = [4, 5]"
  using foreground_selection [of closure10 9] foreground_selection [of closure10 4]
  by (simp add: closure10_def foreground_spec_def)

section \<open>The event loop\<close>

lemmas model_defs = run_def loaded10_def empty10_def initial_def first_render_def
  init_opened_def init_dims_def init_first_def init_second_def init_catch_def
  loadPageImage_def callRender_def setPages_def mark_def loadPage_settle_def
  preloadPagesAround_def handlePageChange_def cleanup_def snapshot_def render_view_def
  pagesToLoad_def candidates_def PRELOAD_RANGE_def has_def

subsection \<open>The invariant\<close>

lemma run_append: "run (es @ es') s = run es' (run es s)"
  by (simp add: run_def)

lemma run_Cons: "run (e # es) s = run es (step e s)"
  by (simp add: run_def)

lemma awaited_append: "awaited (xs @ ys) = awaited xs @ awaited ys"
  by (induction xs rule: awaited.induct) auto

lemma awaited_settle_fg: "awaited (settle_fg idx ps) = remove1 idx (awaited ps)"
  by (induction idx ps rule: settle_fg.induct) auto

lemma settle_fg_Nil: "(settle_fg idx ps = []) = (ps = [])"
  by (induction idx ps rule: settle_fg.induct) auto

lemma awaited_without_Ready:
  assumes "k < length ps" and "ps ! k = Ready rest"
  shows "awaited (take k ps @ drop (Suc k) ps) = awaited ps"
proof -
  have "ps = take k ps @ Ready rest # drop (Suc k) ps"
    using assms by (metis id_take_nth_drop)
  then have "awaited ps = awaited (take k ps) @ awaited (Ready rest # drop (Suc k) ps)"
    by (metis awaited_append)
  then show ?thesis by (simp add: awaited_append)
qed

lemma loadPage_settle_fields:
  "idleCallbacks (loadPage_settle idx out s) = idleCallbacks s"
  "rendering (loadPage_settle idx out s) = rendering s"
  "foreground (loadPage_settle idx out s) = foreground s"
  "pdfRef (loadPage_settle idx out s) = pdfRef s"
  "loadingQueue (loadPage_settle idx out s) = loadingQueue s - {idx}"
  "loadingPages (loadPage_settle idx out s) = loadingPages s - {idx}"
  "timeouts (loadPage_settle idx out s) = timeouts s"
  "renderCalls (loadPage_settle idx out s) = renderCalls s"
  "mounted (loadPage_settle idx out s) = mounted s"
  "revoked (loadPage_settle idx out s) = revoked s"
  "pageCount (loadPage_settle idx out s) = pageCount s"
  by (auto simp: loadPage_settle_def loadPageImage_def setPages_def Let_def
      split: render_outcome.splits)

lemma loadPage_settle_pages:
  "pages (loadPage_settle idx out s) =
     (case out of
        Rendered url \<Rightarrow> if pdfRef s \<and> url \<noteq> [] then AList.update idx url (pages s) else pages s
      | RenderError err \<Rightarrow> pages s
      | BlobRejected err \<Rightarrow> pages s)"
  by (auto simp: loadPage_settle_def loadPageImage_def setPages_def Let_def
      split: render_outcome.splits)

lemma loadPage_settle_distinct:
  "distinct (map fst (pages s)) \<Longrightarrow> distinct (map fst (pages (loadPage_settle idx out s)))"
  by (auto simp: loadPage_settle_pages distinct_update split: render_outcome.splits)

lemma fg_loop_fields:
  "currentPage (fg_loop xs s) = currentPage s"
  "timeouts (fg_loop xs s) = timeouts s"
  "idleCallbacks (fg_loop xs s) = idleCallbacks s"
  "rendering (fg_loop xs s) = rendering s"
  "pages (fg_loop xs s) = pages s"
  by (induction xs) (simp_all add: mark_def callRender_def)

lemma fg_loop_inv: "scheduler_inv s \<Longrightarrow> pdfRef s \<Longrightarrow> scheduler_inv (fg_loop xs s)"
proof (induction xs)
  case Nil
  then show ?case by simp
next
  case (Cons x xs)
  then show ?case
    by (auto simp: scheduler_inv_def inflight_def mark_def callRender_def awaited_append)
qed

lemma bg_loop_pdfRef: "pdfRef (bg_loop xs s) = pdfRef s"
  by (induction xs arbitrary: s) (auto simp: mark_def)

lemma bg_loop_inv: "scheduler_inv s \<Longrightarrow> pdfRef s \<Longrightarrow> scheduler_inv (bg_loop xs s)"
proof (induction xs arbitrary: s)
  case Nil
  then show ?case by simp
next
  case (Cons x xs)
  show ?case
  proof (cases "x \<in> loadingQueue s")
    case True
    with Cons show ?thesis by simp
  next
    case False
    let ?s = "(mark x s)\<lparr>idleCallbacks := idleCallbacks s @ [x]\<rparr>"
    have "scheduler_inv ?s"
      using Cons.prems False by (auto simp: scheduler_inv_def inflight_def mark_def)
    moreover have "pdfRef ?s"
      using Cons.prems by (simp add: mark_def)
    ultimately have "scheduler_inv (bg_loop xs ?s)"
      by (rule Cons.IH)
    with False show ?thesis by simp
  qed
qed

lemma preloadPagesAround_inv:
  "scheduler_inv s \<Longrightarrow> scheduler_inv (preloadPagesAround c i p s)"
  by (simp add: preloadPagesAround_def fg_loop_inv bg_loop_inv)

lemma inv_timeouts_update [simp]: "scheduler_inv (s\<lparr>timeouts := ts\<rparr>) = scheduler_inv s"
  by (simp add: scheduler_inv_def inflight_def)

lemma inv_currentPage_update [simp]: "scheduler_inv (s\<lparr>currentPage := n\<rparr>) = scheduler_inv s"
  by (simp add: scheduler_inv_def inflight_def)

lemma settle_rendering_inv:
  assumes "scheduler_inv s" and "idx \<in> set (rendering s)"
  shows "scheduler_inv (loadPage_settle idx out (s\<lparr>rendering := remove1 idx (rendering s)\<rparr>))"
proof -
  from assms have d: "distinct (idleCallbacks s @ rendering s @ awaited (foreground s))"
    and q: "set (idleCallbacks s @ rendering s @ awaited (foreground s)) = loadingQueue s"
    by (simp_all add: scheduler_inv_def inflight_def)
  from d assms(2) have "idx \<notin> set (idleCallbacks s)" "idx \<notin> set (awaited (foreground s))"
    by auto
  with d q assms show ?thesis
    by (auto simp: scheduler_inv_def inflight_def loadPage_settle_fields
        loadPage_settle_distinct)
qed

lemma settle_foreground_inv:
  assumes "scheduler_inv s" and "idx \<in> set (awaited (foreground s))"
  shows "scheduler_inv (loadPage_settle idx out (s\<lparr>foreground := settle_fg idx (foreground s)\<rparr>))"
proof -
  from assms have d: "distinct (idleCallbacks s @ rendering s @ awaited (foreground s))"
    and q: "set (idleCallbacks s @ rendering s @ awaited (foreground s)) = loadingQueue s"
    by (simp_all add: scheduler_inv_def inflight_def)
  from d assms(2) have "idx \<notin> set (idleCallbacks s)" "idx \<notin> set (rendering s)"
    by auto
  moreover from assms(2) have "foreground s \<noteq> []"
    by auto
  ultimately show ?thesis
    using d q assms
    by (auto simp: scheduler_inv_def inflight_def loadPage_settle_fields
        loadPage_settle_distinct awaited_settle_fg settle_fg_Nil)
qed

lemma step_inv: "scheduler_inv s \<Longrightarrow> scheduler_inv (step e s)"
proof (cases e)
  case (OpenSettles out)
  assume "scheduler_inv s"
  then show ?thesis using OpenSettles
    by (auto simp: scheduler_inv_def inflight_def init_opened_def init_catch_def
        split: open_outcome.splits)
next
  case (DimsSettle res)
  assume "scheduler_inv s"
  then show ?thesis using DimsSettle
    by (auto simp: scheduler_inv_def inflight_def init_dims_def init_catch_def callRender_def
        split: option.splits)
next
  case (InitRenderSettles out)
  assume "scheduler_inv s"
  then show ?thesis using InitRenderSettles
    by (auto simp: scheduler_inv_def inflight_def init_first_def init_second_def
        init_catch_def callRender_def loadPageImage_def setPages_def distinct_update Let_def
        split: render_outcome.splits)
next
  case Rerender
  assume "scheduler_inv s"
  then show ?thesis using Rerender
    by (auto simp: scheduler_inv_def inflight_def cleanup_def)
next
  case (Navigate n)
  assume "scheduler_inv s"
  then show ?thesis using Navigate
    by (simp add: handlePageChange_def Let_def preloadPagesAround_inv)
next
  case TimeoutFires
  assume "scheduler_inv s"
  then show ?thesis using TimeoutFires
    by (simp add: preloadPagesAround_inv split: list.splits timer.splits)
next
  case (IdleRuns idx)
  assume "scheduler_inv s"
  then show ?thesis using IdleRuns
    by (auto simp: scheduler_inv_def inflight_def callRender_def)
next
  case (RenderSettles idx out)
  assume "scheduler_inv s"
  then show ?thesis using RenderSettles
    by (simp add: settle_rendering_inv settle_foreground_inv)
next
  case (FgContinues k)
  assume i: "scheduler_inv s"
  show ?thesis
  proof (cases "k < length (foreground s)")
    case False
    with i FgContinues show ?thesis by simp
  next
    case True
    show ?thesis
    proof (cases "foreground s ! k")
      case (Awaiting idx rest)
      with i True FgContinues show ?thesis by simp
    next
      case (Ready rest)
      let ?s = "s\<lparr>foreground := take k (foreground s) @ drop (Suc k) (foreground s)\<rparr>"
      from True have ne: "foreground s \<noteq> []" by auto
      have "scheduler_inv ?s"
        using i True Ready ne
        by (auto simp: scheduler_inv_def inflight_def awaited_without_Ready)
      moreover have "pdfRef ?s"
        using i ne by (auto simp: scheduler_inv_def)
      ultimately have "scheduler_inv (fg_loop rest ?s)"
        by (rule fg_loop_inv)
      with True Ready FgContinues show ?thesis by simp
    qed
  qed
next
  case Unmount
  assume "scheduler_inv s"
  then show ?thesis using Unmount
    by (auto simp: scheduler_inv_def inflight_def cleanup_def)
qed

lemma run_inv: "scheduler_inv s \<Longrightarrow> scheduler_inv (run es s)"
  unfolding run_def by (induction es arbitrary: s) (simp_all add: step_inv)

lemma initial_inv: "scheduler_inv initial"
  by (simp add: scheduler_inv_def inflight_def initial_def)

subsection \<open>One render in flight, one record in the cache\<close>

text \<open>
  Claim C1 fails as stated: the priority branch never looks at the cache. \<open>init\<close> has cached
  index 0 and nothing is in flight; the widget reports page 0; \<open>pdf.getPage(1)\<close> is called a
  second time, and when that render succeeds its image replaces the record of index 0.
\<close>

theorem rerender_cached_counterexample:
  "map_of (pages (run loaded10 initial)) 0 = Some ''blob:a0'' \<and>
   0 \<notin> loadingQueue (run loaded10 initial) \<and>
   renderCalls (run loaded10 initial) = [1, 2] \<and>
   renderCalls (run (loaded10 @ [Navigate 0]) initial) = [1, 2, 1] \<and>
   pages (run (loaded10 @ [Navigate 0, RenderSettles 0 (Rendered ''blob:b0'')]) initial)
     = [(0, ''blob:b0''), (1, ''blob:a1'')]"
  by (simp add: model_defs)

lemma one_record:
  "distinct (map fst al) \<Longrightarrow> map_of al k = Some v \<Longrightarrow> length (filter (\<lambda>p. fst p = k) al) = 1"
proof (induction al)
  case Nil
  then show ?case by simp
next
  case (Cons p al)
  show ?case
  proof (cases "fst p = k")
    case True
    with Cons.prems have "k \<notin> fst ` set al" by auto
    then have "filter (\<lambda>p. fst p = k) al = []"
      by (auto simp: filter_empty_conv)
    with True show ?thesis by simp
  next
    case False
    with Cons show ?thesis by (cases p) auto
  qed
qed

lemma background_excludes:
  "i \<in> set (pagesToLoad c currentIndex False) \<Longrightarrow> \<not> has (cPages c) i \<and> i \<notin> cLoadingPages c"
proof -
  assume "i \<in> set (pagesToLoad c currentIndex False)"
  then have "i \<in> set (candidates c currentIndex False)"
    unfolding pagesToLoad_def by (auto dest: in_set_takeD)
  then show ?thesis
    by (simp add: candidates_def)
qed

lemma settle_success:
  assumes inv: "scheduler_inv s" and out: "i \<in> set (outstanding s)" and url: "url \<noteq> []"
  shows "map_of (pages (step (RenderSettles i (Rendered url)) s)) i = Some url \<and>
         length (filter (\<lambda>p. fst p = i) (pages (step (RenderSettles i (Rendered url)) s))) = 1 \<and>
         i \<notin> loadingQueue (step (RenderSettles i (Rendered url)) s)"
proof -
  let ?s = "step (RenderSettles i (Rendered url)) s"
  from inv have d: "distinct (map fst (pages ?s))"
    using step_inv [of s "RenderSettles i (Rendered url)"] by (simp add: scheduler_inv_def)
  from out have "inflight s \<noteq> []"
    by (auto simp: outstanding_def inflight_def)
  with inv have pdf: "pdfRef s"
    by (auto simp: scheduler_inv_def)
  from out pdf url have p: "pages ?s = AList.update i url (pages s)"
    by (auto simp: outstanding_def loadPage_settle_pages)
  then have m: "map_of (pages ?s) i = Some url"
    by (simp add: update_conv')
  from out have q: "i \<notin> loadingQueue ?s"
    by (auto simp: outstanding_def loadPage_settle_fields)
  from d m q show ?thesis
    by (simp add: one_record)
qed

text \<open>
  Claim C1, amended. In every state the event loop reaches, no index is in flight twice, the
  indices in flight are exactly those of \<open>loadingQueue\<close>, and \<open>pages\<close> has no key twice. For an
  index in \<open>loadingQueue\<close> the body of either dispatch loop does nothing. A background
  selection has no index that its closure has cached or loading. When a render that is out
  for \<open>i\<close> succeeds with a truthy image, \<open>pages\<close> holds that image at \<open>i\<close>, in exactly one record,
  and \<open>i\<close> has left \<open>loadingQueue\<close>. (A foreground pass does render a cached index again, and
  the record then holds the latest image.)
\<close>

theorem one_render_in_flight:
  "distinct (inflight (run es initial)) \<and>
   set (inflight (run es initial)) = loadingQueue (run es initial) \<and>
   distinct (map fst (pages (run es initial))) \<and>
   (i \<in> loadingQueue s \<longrightarrow>
      fg_loop (i # rest) s = fg_loop rest s \<and> bg_loop (i # rest) s = bg_loop rest s) \<and>
   (i \<in> set (pagesToLoad c currentIndex False) \<longrightarrow> \<not> has (cPages c) i \<and> i \<notin> cLoadingPages c) \<and>
   (i \<in> set (outstanding (run es initial)) \<and> url \<noteq> [] \<longrightarrow>
      map_of (pages (step (RenderSettles i (Rendered url)) (run es initial))) i = Some url \<and>
      length (filter (\<lambda>p. fst p = i)
        (pages (step (RenderSettles i (Rendered url)) (run es initial)))) = 1 \<and>
      i \<notin> loadingQueue (step (RenderSettles i (Rendered url)) (run es initial)))"
proof -
  have inv: "scheduler_inv (run es initial)"
    by (simp add: run_inv initial_inv)
  then have "distinct (inflight (run es initial)) \<and>
      set (inflight (run es initial)) = loadingQueue (run es initial) \<and>
      distinct (map fst (pages (run es initial)))"
    by (simp add: scheduler_inv_def)
  moreover have "i \<in> loadingQueue s \<longrightarrow>
      fg_loop (i # rest) s = fg_loop rest s \<and> bg_loop (i # rest) s = bg_loop rest s"
    by simp
  moreover have "i \<in> set (pagesToLoad c currentIndex False) \<longrightarrow>
      \<not> has (cPages c) i \<and> i \<notin> cLoadingPages c"
    using background_excludes by blast
  moreover have "i \<in> set (outstanding (run es initial)) \<and> url \<noteq> [] \<longrightarrow>
      map_of (pages (step (RenderSettles i (Rendered url)) (run es initial))) i = Some url \<and>
      length (filter (\<lambda>p. fst p = i)
        (pages (step (RenderSettles i (Rendered url)) (run es initial)))) = 1 \<and>
      i \<notin> loadingQueue (step (RenderSettles i (Rendered url)) (run es initial))"
    using settle_success [OF inv] by blast
  ultimately show ?thesis
    by blast
qed

theorem one_render_in_flight_witness:
  "0 \<in> loadingQueue (run (loaded10 @ [Navigate 0]) initial) \<and>
   fg_loop [0, 1] (run (loaded10 @ [Navigate 0]) initial)
     = fg_loop [1] (run (loaded10 @ [Navigate 0]) initial) \<and>
   inflight (run (loaded10 @ [Navigate 0]) initial) = [0] \<and>
   0 \<in> set (outstanding (run (loaded10 @ [Navigate 0]) initial)) \<and>
   map_of (pages (step (RenderSettles 0 (Rendered ''blob:b0''))
     (run (loaded10 @ [Navigate 0]) initial))) 0 = Some ''blob:b0'' \<and>
   0 \<in> set (pagesToLoad closure10 2 False) \<and> \<not> has (cPages closure10) 0"
proof -
  have a: "0 \<in> loadingQueue (run (loaded10 @ [Navigate 0]) initial)"
    and b: "inflight (run (loaded10 @ [Navigate 0]) initial) = [0]"
    and c: "0 \<in> set (outstanding (run (loaded10 @ [Navigate 0]) initial))"
    and d: "0 \<in> set (pagesToLoad closure10 2 False)"
    by (simp_all add: model_defs inflight_def outstanding_def closure10_def upto_rec1)
  from a b c d
    one_render_in_flight [of "loaded10 @ [Navigate 0]" 0
      "run (loaded10 @ [Navigate 0]) initial" "[1]" closure10 2 "''blob:b0''"]
  show ?thesis
    by simp
qed

subsection \<open>Navigating to the first page\<close>








lemma bg_loop_fields:
  "timeouts (bg_loop xs s) = timeouts s"
  "pages (bg_loop xs s) = pages s"
  "foreground (bg_loop xs s) = foreground s"
  by (induction xs arbitrary: s) (simp_all add: mark_def)













subsection \<open>A render that fails\<close>








subsection \<open>Unmounting with a render in flight\<close>

text \<open>
  Claim C6 at the input where the code departs from it. \<open>init\<close> has cached indices 0 and 1,
  the widget reports page 2 and the render of index 2 is out when the component unmounts.
  The cleanup revokes the two cached URLs. The render then succeeds: \<open>loadPage\<close> has no
  \<open>cancelled\<close> test as \<open>init\<close> has, so \<open>setPages\<close> is called with the new URL, and that URL is
  never revoked.
\<close>

theorem late_render_after_unmount:
  "mounted (run (loaded10 @ [TimeoutFires, Navigate 2]) initial) \<and>
   outstanding (run (loaded10 @ [TimeoutFires, Navigate 2]) initial) = [2] \<and>
   \<not> mounted (run (loaded10 @ [TimeoutFires, Navigate 2, Unmount]) initial) \<and>
   revoked (run (loaded10 @ [TimeoutFires, Navigate 2, Unmount]) initial)
     = [''blob:a0'', ''blob:a1''] \<and>
   pages (run (loaded10 @ [TimeoutFires, Navigate 2, Unmount,
       RenderSettles 2 (Rendered ''blob:late'')]) initial)
     = [(0, ''blob:a0''), (1, ''blob:a1''), (2, ''blob:late'')] \<and>
   revoked (run (loaded10 @ [TimeoutFires, Navigate 2, Unmount,
       RenderSettles 2 (Rendered ''blob:late'')]) initial)
     = [''blob:a0'', ''blob:a1'']"
  by (simp add: model_defs outstanding_def)

subsection \<open>A document that does not open\<close>

lemma before_open_step: "before_open e \<Longrightarrow> step e initial = initial"
  by (cases e) (simp_all add: initial_def first_render_def snapshot_def render_view_def)

lemma before_open_run: "list_all before_open es \<Longrightarrow> run es initial = initial"
  by (induction es) (simp_all add: run_def before_open_step)

lemma load_failed_step: "m \<noteq> [] \<Longrightarrow> load_failed msg m s \<Longrightarrow> load_failed msg m (step e s)"
  by (cases e)
    (auto simp: load_failed_def preloadPagesAround_def handlePageChange_def cleanup_def
      snapshot_def render_view_def)

lemma load_failed_run: "m \<noteq> [] \<Longrightarrow> load_failed msg m s \<Longrightarrow> load_failed msg m (run es s)"
  unfolding run_def by (induction es arbitrary: s) (simp_all add: load_failed_step)

lemma load_failed_open:
  "load_failed msg (if msg \<noteq> [] then msg else ''Failed to load PDF'')
     (step (OpenSettles (LoadError msg)) initial)"
  by (simp add: load_failed_def initial_def init_opened_def init_catch_def first_render_def
      render_view_def)

text \<open>
  Claim C7. Let opening the document fail while the component is mounted, after events that
  left \<open>init\<close> waiting. Whatever events follow: the error state holds the message (or the
  default text), \<open>loading\<close> is off, a render shows the error view, the failure is logged once,
  there is no document and the page count is 0; no render is ever called, nothing is cached,
  in flight, suspended or scheduled. And a preload pass in a state without a document, or
  with a closure whose page count is 0, leaves the state as it is.
\<close>

theorem load_error_is_fatal:
  "(list_all before_open es0 \<longrightarrow>
     (let m = (if msg \<noteq> [] then msg else ''Failed to load PDF'');
          s = run (es0 @ OpenSettles (LoadError msg) # es) initial
      in error s = Some m \<and> \<not> loading s \<and> render_view (snapshot s) = ErrorView m \<and>
         console s = [PdfLoadingError msg] \<and> \<not> pdfRef s \<and> pageCount s = 0 \<and>
         renderCalls s = [] \<and> pages s = [] \<and> loadingQueue s = {} \<and> inflight s = [] \<and>
         foreground s = [] \<and> timeouts s = [])) \<and>
   (\<not> pdfRef s' \<or> cPageCount c = 0 \<longrightarrow> preloadPagesAround c i p s' = s')"
proof (intro conjI impI)
  assume es0: "list_all before_open es0"
  define m where "m = (if msg \<noteq> [] then msg else ''Failed to load PDF'')"
  define s where "s = run (es0 @ OpenSettles (LoadError msg) # es) initial"
  have m: "m \<noteq> []"
    by (simp add: m_def)
  have "s = run es (step (OpenSettles (LoadError msg)) initial)"
    using es0 by (simp add: s_def run_append run_Cons before_open_run)
  then have "load_failed msg m s"
    using load_failed_open [of msg] m by (simp add: m_def load_failed_run)
  then have "error s = Some m \<and> \<not> loading s \<and> render_view (snapshot s) = ErrorView m \<and>
         console s = [PdfLoadingError msg] \<and> \<not> pdfRef s \<and> pageCount s = 0 \<and>
         renderCalls s = [] \<and> pages s = [] \<and> loadingQueue s = {} \<and> inflight s = [] \<and>
         foreground s = [] \<and> timeouts s = []"
    using m by (simp add: load_failed_def render_view_def snapshot_def inflight_def)
  then show "let m = (if msg \<noteq> [] then msg else ''Failed to load PDF'');
          s = run (es0 @ OpenSettles (LoadError msg) # es) initial
      in error s = Some m \<and> \<not> loading s \<and> render_view (snapshot s) = ErrorView m \<and>
         console s = [PdfLoadingError msg] \<and> \<not> pdfRef s \<and> pageCount s = 0 \<and>
         renderCalls s = [] \<and> pages s = [] \<and> loadingQueue s = {} \<and> inflight s = [] \<and>
         foreground s = [] \<and> timeouts s = []"
    unfolding m_def s_def Let_def .
next
  assume "\<not> pdfRef s' \<or> cPageCount c = 0"
  then show "preloadPagesAround c i p s' = s'"
    by (auto simp: preloadPagesAround_def)
qed

theorem load_error_is_fatal_witness:
  "list_all before_open [Rerender, TimeoutFires] \<and>
   error (run ([Rerender, TimeoutFires] @ OpenSettles (LoadError ''missing'') #
       [Rerender, Navigate 0, TimeoutFires, DimsSettle None]) initial) = Some ''missing'' \<and>
   renderCalls (run ([Rerender, TimeoutFires] @ OpenSettles (LoadError ''missing'') #
       [Rerender, Navigate 0, TimeoutFires, DimsSettle None]) initial) = [] \<and>
   error (run ([] @ OpenSettles (LoadError '''') # []) initial) = Some ''Failed to load PDF'' \<and>
   \<not> pdfRef initial \<and> preloadPagesAround closure10 0 True initial = initial"
  using load_error_is_fatal [of "[Rerender, TimeoutFires]" "''missing''"
      "[Rerender, Navigate 0, TimeoutFires, DimsSettle None]" initial closure10 0 True]
    load_error_is_fatal [of "[]" "''''" "[]" initial closure10 0 True]
  by (simp add: Let_def initial_def)

subsection \<open>The order of the two passes\<close>

text \<open>
  Claim C8 fails as stated: \<open>handlePageChange\<close> does not await the foreground pass. With the
  cache empty the widget reports page 0: when \<open>handlePageChange\<close> has returned, the timer of
  the background pass is set while the foreground pass is suspended on the render of index 0
  and nothing is cached. The timer may then fire: the background pass hands out indices 1, 2
  and 3, and the render of index 1 starts, with the foreground pass still suspended.
\<close>

theorem navigate_not_awaited_counterexample:
  "timeouts (run (empty10 @ [TimeoutFires, Navigate 0]) initial)
     = [NavTimer 0 (rendered (run empty10 initial))] \<and>
   foreground (run (empty10 @ [TimeoutFires, Navigate 0]) initial) = [Awaiting 0 [1]] \<and>
   pages (run (empty10 @ [TimeoutFires, Navigate 0]) initial) = [] \<and>
   idleCallbacks (run (empty10 @ [TimeoutFires, Navigate 0, TimeoutFires]) initial) = [1, 2, 3] \<and>
   foreground (run (empty10 @ [TimeoutFires, Navigate 0, TimeoutFires]) initial)
     = [Awaiting 0 [1]] \<and>
   rendering (run (empty10 @ [TimeoutFires, Navigate 0, TimeoutFires, IdleRuns 1]) initial) = [1] \<and>
   renderCalls (run (empty10 @ [TimeoutFires, Navigate 0, TimeoutFires, IdleRuns 1]) initial)
     = [1, 2, 1, 2] \<and>
   pages (run (empty10 @ [TimeoutFires, Navigate 0, TimeoutFires, IdleRuns 1]) initial) = []"
  by (simp add: model_defs upto_rec1)

text \<open>
  Claim C8, amended. \<open>handlePageChange\<close> sets the current page, runs the foreground pass up
  to its first suspension and sets the timer of the background pass, without waiting for the
  foreground pass to end. When it returns: the current page is the new one; the timer is the
  last one set, with the new page and the closure; nothing was handed to the idle queue and
  the cache is untouched; and with a document, a closure with pages, and the new page not in
  flight, the render of the new page has been called and the pass is suspended on it. The
  background pass is what the firing of that timer runs.
\<close>

theorem navigation_order:
  "currentPage (handlePageChange c n s) = n \<and>
   timeouts (handlePageChange c n s) = timeouts s @ [NavTimer n c] \<and>
   idleCallbacks (handlePageChange c n s) = idleCallbacks s \<and>
   rendering (handlePageChange c n s) = rendering s \<and>
   pages (handlePageChange c n s) = pages s \<and>
   (pdfRef s \<and> cPageCount c \<noteq> 0 \<and> n \<notin> loadingQueue s \<longrightarrow>
      renderCalls (handlePageChange c n s) = renderCalls s @ [n + 1] \<and>
      foreground (handlePageChange c n s)
        = foreground s @ [Awaiting n (if n + 1 < cPageCount c then [n + 1] else [])] \<and>
      n \<in> loadingQueue (handlePageChange c n s)) \<and>
   step TimeoutFires (s\<lparr>timeouts := NavTimer n c # ts\<rparr>)
     = preloadPagesAround c n False (s\<lparr>timeouts := ts\<rparr>)"
  by (simp add: handlePageChange_def preloadPagesAround_def fg_loop_fields Let_def
      pagesToLoad_def candidates_def mark_def callRender_def)

theorem navigation_order_witness:
  "pdfRef (run empty10 initial) \<and> cPageCount (rendered (run empty10 initial)) = 10 \<and>
   3 \<notin> loadingQueue (run empty10 initial) \<and>
   currentPage (handlePageChange (rendered (run empty10 initial)) 3 (run empty10 initial)) = 3 \<and>
   renderCalls (handlePageChange (rendered (run empty10 initial)) 3 (run empty10 initial))
     = [1, 2, 4] \<and>
   foreground (handlePageChange (rendered (run empty10 initial)) 3 (run empty10 initial))
     = [Awaiting 3 [4]] \<and>
   idleCallbacks (handlePageChange (rendered (run empty10 initial)) 3 (run empty10 initial)) = []"
proof -
  have a: "pdfRef (run empty10 initial)"
    and b: "cPageCount (rendered (run empty10 initial)) = 10"
    and c: "3 \<notin> loadingQueue (run empty10 initial)"
    and d: "renderCalls (run empty10 initial) = [1, 2]"
    and e: "foreground (run empty10 initial) = []"
    and f: "idleCallbacks (run empty10 initial) = []"
    by (simp_all add: model_defs)
  from a b c d e f
    navigation_order [of "rendered (run empty10 initial)" 3 "run empty10 initial"]
  show ?thesis
    by simp
qed

section \<open>The page-splitting variant\<close>

lemma drawImage_left: "drawImage cv 0 0 (canvas_width cv div 2) (canvas_height cv) = left_half cv"
  by (simp add: drawImage_def left_half_def canvas_height_def)

lemma drawImage_right:
  "rectangular cv \<Longrightarrow>
   drawImage cv (canvas_width cv div 2) 0 (canvas_width cv - canvas_width cv div 2) (canvas_height cv)
     = right_half cv"
  by (simp add: drawImage_def right_half_def canvas_height_def rectangular_def list_all_iff)

lemma loadPageImage_split_halves:
  "renderPage pdf n = Some cv \<Longrightarrow> rectangular cv \<Longrightarrow>
   loadPageImage_split pdf n = Some [left_half cv, right_half cv]"
  by (simp add: loadPageImage_split_def SPLIT_PAGES_def Let_def drawImage_left drawImage_right)

lemma loadPageImage_split_None:
  "renderPage pdf n = None \<Longrightarrow> loadPageImage_split pdf n = None"
  by (simp add: loadPageImage_split_def)

lemma preload_loop_split_entries:
  assumes rect: "\<And>n cv. renderPage pdf n = Some cv \<Longrightarrow> rectangular cv"
  shows "fst (preload_loop_split pdf cnt cpages xs st) idx = st idx \<or>
         (0 \<le> idx \<and> idx < cnt \<and> split_spec pdf idx \<noteq> None \<and>
          fst (preload_loop_split pdf cnt cpages xs st) idx = split_spec pdf idx)"
proof (induction xs arbitrary: st)
  case Nil
  show ?case by simp
next
  case (Cons x xs)
  show ?case
  proof (cases "x < 0 \<or> x \<ge> cnt \<or> cpages x \<noteq> None")
    case True
    then show ?thesis using Cons.IH [of st] by auto
  next
    case False
    then have x: "0 \<le> x" "x < cnt" "cpages x = None" by auto
    show ?thesis
    proof (cases "renderPage pdf (x div 2 + 1)")
      case None
      then show ?thesis using x by (simp add: SPLIT_PAGES_def loadPageImage_split_None)
    next
      case (Some cv)
      define img where "img = (if even x then left_half cv else right_half cv)"
      have load: "loadPageImage_split pdf (x div 2 + 1) = Some [left_half cv, right_half cv]"
        using Some rect by (simp add: loadPageImage_split_halves)
      have sel: "[left_half cv, right_half cv] ! nat (x mod 2) = img"
        unfolding img_def using x(1)
        by (cases "even x") (auto simp: even_iff_mod_2_eq_zero odd_iff_mod_2_eq_one)
      have unfold: "preload_loop_split pdf cnt cpages (x # xs) st =
          preload_loop_split pdf cnt cpages xs (st(x \<mapsto> img))"
        using x load sel by (simp add: SPLIT_PAGES_def del: nth_Cons_0)
      have spec: "split_spec pdf x = Some img"
        using Some by (simp add: split_spec_def img_def)
      define r where "r = fst (preload_loop_split pdf cnt cpages xs (st(x \<mapsto> img)))"
      have IH: "r idx = (st(x \<mapsto> img)) idx \<or>
          (0 \<le> idx \<and> idx < cnt \<and> split_spec pdf idx \<noteq> None \<and> r idx = split_spec pdf idx)"
        unfolding r_def by (rule Cons.IH)
      have "r idx = st idx \<or>
          (0 \<le> idx \<and> idx < cnt \<and> split_spec pdf idx \<noteq> None \<and> r idx = split_spec pdf idx)"
      proof (cases "idx = x")
        case True
        with IH x spec show ?thesis by auto
      next
        case False
        with IH show ?thesis by simp
      qed
      then show ?thesis
        unfolding unfold r_def .
    qed
  qed
qed


lemma preload_loop_split_other:
  "idx \<notin> set xs \<Longrightarrow> fst (preload_loop_split pdf cnt cpages xs st) idx = st idx"
  by (induction xs arbitrary: st) (auto simp: Let_def split: option.splits)

text \<open>
  Claim C9. With splitting, the count \<open>init\<close> stores is twice the number of PDF pages.
  A pass of \<open>preloadPagesAround\<close>, its closure holding that count or still 0, leaves an
  entry of the cache as it was or stores at a valid index \<open>idx\<close> the half that belongs there: of PDF page \<open>idx div 2 + 1\<close>, the left half
  for an even \<open>idx\<close> and the right half for an odd one. A pass at a valid \<open>idx\<close> that its
  closure has not cached, and whose page renders, stores that half at \<open>idx\<close>. The canvases
  the document renders are rectangular.
\<close>

theorem split_variant_cache:
  assumes rect: "\<forall>n cv. renderPage pdf n = Some cv \<longrightarrow> rectangular cv"
  shows "init_count_split pdf = 2 * numPages pdf \<and>
    (cnt = 0 \<or> cnt = init_count_split pdf \<longrightarrow>
     fst (preloadPagesAround_split (Some pdf) cnt cpages currentIndex st) idx = st idx \<or>
     (0 \<le> idx \<and> idx < 2 * numPages pdf \<and> split_spec pdf idx \<noteq> None \<and>
      fst (preloadPagesAround_split (Some pdf) cnt cpages currentIndex st) idx
        = split_spec pdf idx)) \<and>
    (0 \<le> idx \<and> idx < 2 * numPages pdf \<and> cpages idx = None \<and>
     renderPage pdf (idx div 2 + 1) \<noteq> None \<longrightarrow>
       split_spec pdf idx \<noteq> None \<and>
       fst (preloadPagesAround_split (Some pdf) (init_count_split pdf) cpages idx st) idx
         = split_spec pdf idx)"
proof (intro conjI impI)
  show cnt: "init_count_split pdf = 2 * numPages pdf"
    by (simp add: init_count_split_def SPLIT_PAGES_def)
  from rect have rect': "\<And>n cv. renderPage pdf n = Some cv \<Longrightarrow> rectangular cv"
    by blast
  show "fst (preloadPagesAround_split (Some pdf) cnt cpages currentIndex st) idx = st idx \<or>
     (0 \<le> idx \<and> idx < 2 * numPages pdf \<and> split_spec pdf idx \<noteq> None \<and>
      fst (preloadPagesAround_split (Some pdf) cnt cpages currentIndex st) idx
        = split_spec pdf idx)"
    if c: "cnt = 0 \<or> cnt = init_count_split pdf"
  proof -
    define r where "r = fst (preloadPagesAround_split (Some pdf) cnt cpages currentIndex st)"
    have "r idx = st idx \<or>
        (0 \<le> idx \<and> idx < cnt \<and> split_spec pdf idx \<noteq> None \<and> r idx = split_spec pdf idx)"
      unfolding r_def preloadPagesAround_split_def
      using preload_loop_split_entries [OF rect', where cnt = cnt
        and cpages = cpages and xs = "[currentIndex, currentIndex + 1, currentIndex + 2]"
        and st = st and idx = idx]
      by simp
    moreover have "idx < 2 * numPages pdf" if "0 \<le> idx" and "idx < cnt"
      using that c cnt by linarith
    ultimately show ?thesis
      unfolding r_def by blast
  qed
  assume a: "0 \<le> idx \<and> idx < 2 * numPages pdf \<and> cpages idx = None \<and>
     renderPage pdf (idx div 2 + 1) \<noteq> None"
  then obtain cv where cv: "renderPage pdf (idx div 2 + 1) = Some cv"
    by auto
  define img where "img = (if even idx then left_half cv else right_half cv)"
  have load: "loadPageImage_split pdf (idx div 2 + 1) = Some [left_half cv, right_half cv]"
    using cv rect' by (simp add: loadPageImage_split_halves)
  have sel: "[left_half cv, right_half cv] ! nat (idx mod 2) = img"
    unfolding img_def using a
    by (cases "even idx") (auto simp: even_iff_mod_2_eq_zero odd_iff_mod_2_eq_one)
  have spec: "split_spec pdf idx = Some img"
    using cv by (simp add: split_spec_def img_def)
  then show "split_spec pdf idx \<noteq> None"
    by simp
  have "preload_loop_split pdf (2 * numPages pdf) cpages [idx, idx + 1, idx + 2] st =
      preload_loop_split pdf (2 * numPages pdf) cpages [idx + 1, idx + 2] (st(idx \<mapsto> img))"
    using a load sel by (simp add: SPLIT_PAGES_def del: nth_Cons_0)
  moreover have "fst (preload_loop_split pdf (2 * numPages pdf) cpages [idx + 1, idx + 2]
      (st(idx \<mapsto> img))) idx = (st(idx \<mapsto> img)) idx"
    by (rule preload_loop_split_other) simp
  ultimately show "fst (preloadPagesAround_split (Some pdf) (init_count_split pdf) cpages idx st) idx
         = split_spec pdf idx"
    unfolding cnt preloadPagesAround_split_def using spec by simp
qed

lemma example_pdf_rectangular:
  "\<forall>n cv. renderPage example_pdf n = Some cv \<longrightarrow> rectangular cv"
  by (auto simp: example_pdf_def rectangular_def canvas_width_def split: if_splits)

theorem split_variant_cache_witness:
  "init_count_split example_pdf = 4 \<and>
   fst (preloadPagesAround_split (Some example_pdf) (init_count_split example_pdf) Map.empty 1
     Map.empty) 1 = Some [[2, 3], [5, 6]] \<and>
   split_spec example_pdf 1 = Some [[2, 3], [5, 6]] \<and>
   fst (preloadPagesAround_split (Some example_pdf) (init_count_split example_pdf) Map.empty 1
     Map.empty) 2 = Some [[7, 8]] \<and>
   fst (preloadPagesAround_split (Some example_pdf) (init_count_split example_pdf) Map.empty 1
     Map.empty) 3 = Some [[9, 10]]"
  using split_variant_cache [OF example_pdf_rectangular, where cpages = Map.empty
      and currentIndex = 1 and st = Map.empty and idx = 1 and cnt = 4]
  by (simp add: example_pdf_def split_spec_def right_half_def left_half_def canvas_width_def
      preloadPagesAround_split_def init_count_split_def loadPageImage_split_def SPLIT_PAGES_def
      drawImage_def canvas_height_def)


text \<open>
  Claim C10. Once a document is loaded (the count is positive) and the book is there,
  \<open>goToPage\<close> flips to an index between \<open>0\<close> and the count less one, whatever the page
  number is: zero, negative or beyond the count.
\<close>

theorem goToPage_clamped:
  "0 < cnt \<Longrightarrow> \<exists>t. goToPage True cnt pageNumber = Some t \<and> 0 \<le> t \<and> t \<le> cnt - 1"
  by (simp add: goToPage_def)

theorem goToPage_clamped_witness:
  "(0::int) < 10 \<and> goToPage True 10 0 = Some 0 \<and> goToPage True 10 (- 7) = Some 0 \<and>
   goToPage True 10 99 = Some 9 \<and> goToPage True 10 4 = Some 3"
  using goToPage_clamped [of 10 99] by (simp add: goToPage_def)

end
